theory Spec2Isabelle
  imports Main "HOL-Library.Word"
begin

section \<open>Errors\<close>

text \<open>
  Every exception the reader can raise is a value. \<open>IndexError\<close>, \<open>NameError\<close>,
  \<open>TypeError\<close> and \<open>ValueError\<close> are the Python built-ins; \<open>TruncatedInputError\<close> is what the byte
  cursor raises on a short read. \<open>EmptyContainerError\<close> is named by the error taxonomy
  of the specification; no statement of \<open>tiff_reader.py\<close> raises it.
\<close>

datatype error =
  TruncatedInputError
| IndexError
| NameError
| TypeError
| ValueError
| EmptyContainerError

definition ebind :: "error + 'a \<Rightarrow> ('a \<Rightarrow> error + 'b) \<Rightarrow> error + 'b" where
  "ebind m f = (case m of Inl e \<Rightarrow> Inl e | Inr x \<Rightarrow> f x)"

section \<open>The byte cursor (\<open>BufferReader\<close>)\<close>

type_synonym byte = "8 word"

text \<open>
  Modelled from the spec: the class \<open>BufferReader\<close> of \<open>buffer_reader.py\<close> is imported
  by \<open>tiff_reader.py\<close> but its file is not part of the sources at hand. Section 4.1
  of the specification: the cursor wraps a byte source, fixes the endianness at
  construction from the first two bytes read, reads fixed-width unsigned integers
  honouring it, fails with \<open>TruncatedInputError\<close> when fewer bytes remain than
  requested, and seeks to absolute offsets.
\<close>

record BufferReader =
  buffer :: "byte list"
  pos :: nat
  endianness :: "byte list"

definition INTEL_ENDIAN :: "byte list" where
  "INTEL_ENDIAN = [73, 73]"

definition MOTOROLA_ENDIAN :: "byte list" where
  "MOTOROLA_ENDIAN = [77, 77]"

definition new_BufferReader :: "byte list \<Rightarrow> BufferReader" where
  "new_BufferReader bs =
     \<lparr>buffer = bs, pos = min 2 (length bs), endianness = take 2 bs\<rparr>"

fun le_uint :: "byte list \<Rightarrow> nat" where
  "le_uint [] = 0"
| "le_uint (b # bs) = unat b + 256 * le_uint bs"

definition to_uint :: "byte list \<Rightarrow> byte list \<Rightarrow> nat" where
  "to_uint e bs = (if e = INTEL_ENDIAN then le_uint bs else le_uint (rev bs))"

definition read_uint :: "nat \<Rightarrow> BufferReader \<Rightarrow> error + (nat \<times> BufferReader)" where
  "read_uint k r =
     (if pos r + k \<le> length (buffer r)
      then Inr (to_uint (endianness r) (take k (drop (pos r) (buffer r))),
                r\<lparr>pos := pos r + k\<rparr>)
      else Inl TruncatedInputError)"

abbreviation read_uint16 :: "BufferReader \<Rightarrow> error + (nat \<times> BufferReader)" where
  "read_uint16 \<equiv> read_uint 2"

abbreviation read_uint32 :: "BufferReader \<Rightarrow> error + (nat \<times> BufferReader)" where
  "read_uint32 \<equiv> read_uint 4"

abbreviation read_uint64 :: "BufferReader \<Rightarrow> error + (nat \<times> BufferReader)" where
  "read_uint64 \<equiv> read_uint 8"

text \<open>\<open>buffer.seek(offset, 0)\<close>: an absolute position, which may lie beyond the end.\<close>

definition seek :: "nat \<Rightarrow> BufferReader \<Rightarrow> BufferReader" where
  "seek off r = r\<lparr>pos := off\<rparr>"

text \<open>
  \<open>buffer.read(n)\<close> of Python's binary streams: at most \<open>n\<close> bytes from the current
  position, fewer at the end of the stream, and everything up to the end when
  \<open>n\<close> is negative.
\<close>

definition buffer_read :: "int \<Rightarrow> BufferReader \<Rightarrow> byte list" where
  "buffer_read n r =
     (if n < 0 then drop (pos r) (buffer r)
      else take (nat n) (drop (pos r) (buffer r)))"

section \<open>The format check (\<open>TiffReader._is_this_type\<close>, lines 60-91)\<close>

text \<open>
  The magic is tested twice in sequence, with an early \<open>return False\<close> inside each
  branch and one \<open>return True\<close> after both. The two tests exclude each other, so the
  sequence is written as a chain; its last branch is the fall-through of a magic that
  is neither 42 nor 43.
\<close>

definition is_this_type :: "byte list \<Rightarrow> error + bool" where
  "is_this_type bs =
     (let buffer_reader = new_BufferReader bs in
      if endianness buffer_reader \<notin> {INTEL_ENDIAN, MOTOROLA_ENDIAN} then Inr False
      else ebind (read_uint16 buffer_reader) (\<lambda>(magic, r1).
        if magic = 42 then
          ebind (read_uint32 r1) (\<lambda>(ifd_offset, r2).
            if ifd_offset = 0 then Inr False else Inr True)
        else if magic = 43 then
          ebind (read_uint16 r1) (\<lambda>(v8, r2).
            if v8 \<noteq> 8 then Inr False
            else ebind (read_uint16 r2) (\<lambda>(v0, r3).
              if v0 \<noteq> 0 then Inr False
              else ebind (read_uint64 r3) (\<lambda>(ifd_offset, r4).
                if ifd_offset = 0 then Inr False else Inr True)))
        else Inr True))"

section \<open>The description extractor (\<open>TiffReader.get_image_description\<close>, lines 284-353)\<close>

text \<open>
  The \<open>for n in range(0, entries)\<close> loop of lines 311-320 and 337-346. The two copies
  differ only in the width \<open>w\<close> of the count and offset fields: 4 bytes in the
  classic block, 8 bytes in the BigTIFF block. The loop yields the pair
  \<open>(description_length, description_offset)\<close> when it leaves through \<open>break\<close>.
\<close>

fun scan_entries ::
  "nat \<Rightarrow> nat \<Rightarrow> BufferReader \<Rightarrow> error + ((int \<times> nat) option \<times> BufferReader)" where
  "scan_entries w 0 r = Inr (None, r)"
| "scan_entries w (Suc n) r =
     ebind (read_uint16 r) (\<lambda>(tag, r1).
     ebind (read_uint16 r1) (\<lambda>(type, r2).
     ebind (read_uint w r2) (\<lambda>(count, r3).
     ebind (read_uint w r3) (\<lambda>(offset, r4).
       if tag = 270 then Inr (Some (int count - 1, offset), r4)
       else scan_entries w n r4))))"

text \<open>
  How the \<open>while not found\<close> loop ends: through \<open>return None\<close> at a zero directory
  offset, through the loop condition once the tag was found, or through an exception.
\<close>

datatype walk_result =
  ReturnNone
| Found int nat BufferReader
| Raised error

text \<open>
  The \<open>while not found\<close> loop of lines 305-320 (\<open>cw = 2\<close>, \<open>w = 4\<close>) and 331-346
  (\<open>cw = 8\<close>, \<open>w = 8\<close>). A directory chain that leads back into itself keeps the
  loop running forever, so the loop carries fuel: \<open>None\<close> is a run that has not ended
  within the given number of iterations.
\<close>

fun find_description :: "nat \<Rightarrow> nat \<Rightarrow> nat \<Rightarrow> BufferReader \<Rightarrow> walk_result option" where
  "find_description cw w 0 r = None"
| "find_description cw w (Suc fuel) r =
     (case read_uint w r of
        Inl e \<Rightarrow> Some (Raised e)
      | Inr (ifd_offset, r1) \<Rightarrow>
          if ifd_offset = 0 then Some ReturnNone
          else (case read_uint cw (seek ifd_offset r1) of
                  Inl e \<Rightarrow> Some (Raised e)
                | Inr (entries, r2) \<Rightarrow>
                    (case scan_entries w entries r2 of
                       Inl e \<Rightarrow> Some (Raised e)
                     | Inr (Some (len, off), r3) \<Rightarrow> Some (Found len off r3)
                     | Inr (None, r3) \<Rightarrow> find_description cw w fuel r3)))"

text \<open>
  Lines 348-353. The branch for a zero offset evaluates \<open>bytearray("")\<close>, which in
  Python 3 raises \<open>TypeError\<close> (a string argument needs an encoding).
\<close>

definition read_description :: "int \<Rightarrow> nat \<Rightarrow> BufferReader \<Rightarrow> error + byte list option" where
  "read_description description_length description_offset r =
     (if description_offset = 0 then Inl TypeError
      else Inr (Some (buffer_read description_length (seek description_offset r))))"

definition after_walk :: "walk_result option \<Rightarrow> (error + byte list option) option" where
  "after_walk res =
     (case res of
        None \<Rightarrow> None
      | Some ReturnNone \<Rightarrow> Some (Inr None)
      | Some (Raised e) \<Rightarrow> Some (Inl e)
      | Some (Found len off r) \<Rightarrow> Some (read_description len off r))"

definition get_image_description :: "nat \<Rightarrow> byte list \<Rightarrow> (error + byte list option) option" where
  "get_image_description fuel bs =
     (let buffer_reader = new_BufferReader bs in
      if endianness buffer_reader \<notin> {INTEL_ENDIAN, MOTOROLA_ENDIAN} then Some (Inr None)
      else (case read_uint16 buffer_reader of
              Inl e \<Rightarrow> Some (Inl e)
            | Inr (magic, r1) \<Rightarrow>
                if magic = 42 then after_walk (find_description 2 4 fuel r1)
                else if magic = 43 then
                  (case read_uint16 r1 of
                     Inl e \<Rightarrow> Some (Inl e)
                   | Inr (v8, r2) \<Rightarrow>
                       if v8 \<noteq> 8 then Some (Inr None)
                       else (case read_uint16 r2 of
                               Inl e \<Rightarrow> Some (Inl e)
                             | Inr (v0, r3) \<Rightarrow>
                                 if v0 \<noteq> 0 then Some (Inr None)
                                 else after_walk (find_description 8 8 fuel r3)))
                else Some (read_description 0 0 r1)))"

section \<open>The layout of a container on the byte stream\<close>

text \<open>
  The claims about the extractor speak of containers: of a chain of directories and of
  the entries they hold. The predicates below say what it means for a byte stream to
  hold such a chain; they read bytes at fixed positions and never move a cursor.
\<close>

record entry =
  e_tag :: nat
  e_type :: nat
  e_count :: nat
  e_offset :: nat

definition get_uint :: "byte list \<Rightarrow> byte list \<Rightarrow> nat \<Rightarrow> nat \<Rightarrow> nat option" where
  "get_uint e bs k p =
     (if p + k \<le> length bs then Some (to_uint e (take k (drop p bs))) else None)"

text \<open>The entries \<open>xs\<close> lie one after the other from position \<open>p\<close> on.\<close>

fun entries_at :: "byte list \<Rightarrow> byte list \<Rightarrow> nat \<Rightarrow> nat \<Rightarrow> entry list \<Rightarrow> bool" where
  "entries_at e bs w p [] = True"
| "entries_at e bs w p (x # xs) =
     (get_uint e bs 2 p = Some (e_tag x) \<and>
      get_uint e bs 2 (p + 2) = Some (e_type x) \<and>
      get_uint e bs w (p + 4) = Some (e_count x) \<and>
      get_uint e bs w (p + 4 + w) = Some (e_offset x) \<and>
      entries_at e bs w (p + 4 + 2 * w) xs)"

definition ifd_at :: "byte list \<Rightarrow> byte list \<Rightarrow> nat \<Rightarrow> nat \<Rightarrow> nat \<Rightarrow> entry list \<Rightarrow> bool" where
  "ifd_at e bs cw w off es =
     (get_uint e bs cw off = Some (length es) \<and> entries_at e bs w (off + cw) es)"

text \<open>
  The pointer at position \<open>p\<close> leads through the directories \<open>dirs\<close>, each followed by
  the pointer to the next; the result is the position of the pointer after the last.
\<close>

fun chain_end ::
  "byte list \<Rightarrow> byte list \<Rightarrow> nat \<Rightarrow> nat \<Rightarrow> nat \<Rightarrow> entry list list \<Rightarrow> nat option" where
  "chain_end e bs cw w p [] = Some p"
| "chain_end e bs cw w p (d # ds) =
     (case get_uint e bs w p of
        None \<Rightarrow> None
      | Some off \<Rightarrow>
          if off \<noteq> 0 \<and> ifd_at e bs cw w off d
          then chain_end e bs cw w (off + cw + length d * (4 + 2 * w)) ds
          else None)"

datatype variant = Classic | Big

fun count_width :: "variant \<Rightarrow> nat" where
  "count_width Classic = 2"
| "count_width Big = 8"

fun field_width :: "variant \<Rightarrow> nat" where
  "field_width Classic = 4"
| "field_width Big = 8"

fun first_pointer :: "variant \<Rightarrow> nat" where
  "first_pointer Classic = 4"
| "first_pointer Big = 8"

fun tiff_header :: "variant \<Rightarrow> byte list \<Rightarrow> bool" where
  "tiff_header Classic bs =
     (take 2 bs \<in> {INTEL_ENDIAN, MOTOROLA_ENDIAN} \<and> get_uint (take 2 bs) bs 2 2 = Some 42)"
| "tiff_header Big bs =
     (take 2 bs \<in> {INTEL_ENDIAN, MOTOROLA_ENDIAN} \<and> get_uint (take 2 bs) bs 2 2 = Some 43 \<and>
      get_uint (take 2 bs) bs 2 4 = Some 8 \<and> get_uint (take 2 bs) bs 2 6 = Some 0)"

text \<open>
  A container of variant \<open>v\<close> whose whole chain is \<open>dirs\<close>: the pointer after the last
  directory is 0.
\<close>

definition ifd_chain :: "variant \<Rightarrow> byte list \<Rightarrow> entry list list \<Rightarrow> bool" where
  "ifd_chain v bs dirs =
     (tiff_header v bs \<and>
      (case chain_end (take 2 bs) bs (count_width v) (field_width v) (first_pointer v) dirs of
         None \<Rightarrow> False
       | Some q \<Rightarrow> get_uint (take 2 bs) bs (field_width v) q = Some 0))"

text \<open>
  A container of variant \<open>v\<close> in which \<open>x\<close> is the first entry with tag 270 in the order
  of the chain: the directories \<open>dirs\<close> come first and hold no such entry, the next
  directory begins with the entries \<open>es\<close>, which hold none either, and then holds \<open>x\<close>.
\<close>

definition first_description ::
  "variant \<Rightarrow> byte list \<Rightarrow> entry list list \<Rightarrow> entry list \<Rightarrow> entry \<Rightarrow> bool" where
  "first_description v bs dirs es x =
     (tiff_header v bs \<and> 270 \<notin> set (map e_tag (concat dirs @ es)) \<and> e_tag x = 270 \<and>
      (case chain_end (take 2 bs) bs (count_width v) (field_width v) (first_pointer v) dirs of
         None \<Rightarrow> False
       | Some q \<Rightarrow>
           (case get_uint (take 2 bs) bs (field_width v) q of
              None \<Rightarrow> False
            | Some off \<Rightarrow>
                off \<noteq> 0 \<and>
                (case get_uint (take 2 bs) bs (count_width v) off of
                   None \<Rightarrow> False
                 | Some n \<Rightarrow>
                     length es < n \<and>
                     entries_at (take 2 bs) bs (field_width v) (off + count_width v)
                       (es @ [x])))))"

section \<open>The decoded container (\<open>tifffile.TiffFile\<close>)\<close>

text \<open>
  What the reader asks of the external decoder: the file's scenes (\<open>tiff.series\<close>),
  each with its shape (\<open>scene.shape\<close>), the axes and shape of its pages
  (\<open>scene.pages.axes\<close>, \<open>scene.pages.shape\<close>) and its pages (\<open>scene.pages[i]\<close>), and
  the pages of the whole file (\<open>tiff.pages\<close>). An array is its shape and its elements
  in row-major order; a page decodes to one array (\<open>page.asarray()\<close>).
\<close>

type_synonym dtype = string

record 'a ndarray =
  a_shape :: "nat list"
  a_data :: "'a list"

record 'a TiffPage =
  page_dtype :: dtype
  page_asarray :: "'a ndarray"

record 'a TiffPageSeries =
  series_shape :: "nat list"
  pages_axes :: string
  pages_shape :: "nat list"
  series_pages :: "'a TiffPage list"

record 'a TiffFile =
  tiff_series :: "'a TiffPageSeries list"
  tiff_pages :: "'a TiffPage list"

text \<open>
  Indexing a Python sequence with an integer: \<open>-1\<close> is the last element, \<open>-len\<close> the
  first, and an index outside \<open>-len .. len - 1\<close> raises \<open>IndexError\<close>.
\<close>

definition py_index :: "'a list \<Rightarrow> int \<Rightarrow> error + 'a" where
  "py_index xs i =
     (if 0 \<le> i \<and> i < int (length xs) then Inr (xs ! nat i)
      else if i < 0 \<and> - int (length xs) \<le> i then Inr (xs ! nat (int (length xs) + i))
      else Inl IndexError)"

text \<open>
  \<open>scene.asarray()\<close>: the planes of the scene's pages, in order, under the scene's shape.
  \<open>tiff.asarray()\<close> without arguments decodes the first scene. \<open>np.stack\<close> puts arrays
  of one shape along a new leading axis.
\<close>

definition series_asarray :: "'a TiffPageSeries \<Rightarrow> 'a ndarray" where
  "series_asarray s =
     \<lparr>a_shape = series_shape s, a_data = concat (map (a_data \<circ> page_asarray) (series_pages s))\<rparr>"

definition tiff_asarray :: "'a TiffFile \<Rightarrow> error + 'a ndarray" where
  "tiff_asarray tiff = ebind (py_index (tiff_series tiff) 0) (\<lambda>s. Inr (series_asarray s))"

definition np_stack :: "'a ndarray list \<Rightarrow> 'a ndarray" where
  "np_stack arrs =
     \<lparr>a_shape = length arrs # a_shape (hd arrs), a_data = concat (map a_data arrs)\<rparr>"

section \<open>Reading pages and scenes (lines 93-185)\<close>

text \<open>\<open>TiffReader._imread\<close>, lines 93-104.\<close>

definition imread :: "'a TiffFile \<Rightarrow> int \<Rightarrow> int \<Rightarrow> error + 'a ndarray" where
  "imread img scene page =
     ebind (py_index (tiff_series img) scene) (\<lambda>scene.
     ebind (py_index (series_pages scene) page) (\<lambda>page.
       Inr (page_asarray page)))"

text \<open>\<open>TiffReader._scene_shape_is_consistent\<close>, lines 106-119; \<open>S\<close> only enters the log.\<close>

fun same_shape_loop :: "nat list \<Rightarrow> 'a TiffPageSeries list \<Rightarrow> bool" where
  "same_shape_loop operating_shape [] = True"
| "same_shape_loop operating_shape (scene # scenes) =
     (if series_shape scene \<noteq> operating_shape then False
      else same_shape_loop operating_shape scenes)"

definition scene_shape_is_consistent :: "'a TiffFile \<Rightarrow> error + bool" where
  "scene_shape_is_consistent tiff =
     ebind (py_index (tiff_series tiff) 0) (\<lambda>s0.
       Inr (same_shape_loop (series_shape s0) (tiff_series tiff)))"

text \<open>
  \<open>np.ndenumerate\<close> visits the positions of a grid in row-major order; \<open>ravel\<close> is the
  rank of a position in that order.
\<close>

fun ndindex :: "nat list \<Rightarrow> nat list list" where
  "ndindex [] = [[]]"
| "ndindex (n # ns) = concat (map (\<lambda>i. map ((#) i) (ndindex ns)) [0..<n])"

fun ravel :: "nat list \<Rightarrow> nat list \<Rightarrow> nat" where
  "ravel (n # ns) (i # js) = i * prod_list ns + ravel ns js"
| "ravel ns js = 0"

text \<open>
  A deferred page read, \<open>da.from_delayed(delayed(TiffReader._imread)(file, scene_index,
  this_page_index), shape, dtype)\<close>, and the lazy array built from a grid of them:
  \<open>la_first\<close> records the final \<open>data[0, :]\<close>.
\<close>

record delayed =
  d_scene :: nat
  d_page :: nat
  d_shape :: "nat list"
  d_dtype :: dtype

record lazy_array =
  la_grid :: "nat list"
  la_blocks :: "(nat list \<times> delayed) list"
  la_first :: bool

text \<open>
  \<open>TiffReader._read_delayed\<close>, lines 121-168. \<open>da.block\<close> refuses a grid without
  positions (an empty list) with \<open>ValueError\<close>.
\<close>

definition read_delayed :: "'a TiffFile \<Rightarrow> int \<Rightarrow> error + lazy_array" where
  "read_delayed tiff specific_s_index =
     ebind (py_index (tiff_series tiff) 0) (\<lambda>s0.
     ebind (scene_shape_is_consistent tiff) (\<lambda>consistent.
     ebind (if \<not> consistent
            then ebind (py_index (tiff_series tiff) specific_s_index) (\<lambda>s.
                   Inr (series_shape s, [s]))
            else Inr (series_shape s0, tiff_series tiff)) (\<lambda>(operating_shape, scenes).
     ebind (py_index scenes 0) (\<lambda>scene0.
     ebind (py_index (series_pages scene0) 0) (\<lambda>page0.
       let sample = page_asarray page0;
           operating_shape = length scenes # operating_shape;
           operating_shape = take (length operating_shape - 2) operating_shape @ [1, 1];
           lazy_arrays =
             map (\<lambda>(all_page_index, np_index).
                    let scene_index = hd np_index;
                        this_page_index = all_page_index div (scene_index + 1)
                    in (np_index,
                        \<lparr>d_scene = scene_index, d_page = this_page_index,
                         d_shape = a_shape sample, d_dtype = page_dtype page0\<rparr>))
                 (enumerate 0 (ndindex operating_shape))
       in if lazy_arrays = [] then Inl ValueError
          else Inr \<lparr>la_grid = operating_shape, la_blocks = lazy_arrays,
                    la_first = (length scenes = 1)\<rparr>)))))"

text \<open>\<open>TiffReader._read_immediate\<close>, lines 170-185.\<close>

definition read_immediate :: "'a TiffFile \<Rightarrow> int \<Rightarrow> error + 'a ndarray" where
  "read_immediate tiff specific_s_index =
     ebind (scene_shape_is_consistent tiff) (\<lambda>consistent.
       if \<not> consistent
       then ebind (py_index (tiff_series tiff) specific_s_index) (\<lambda>s. Inr (series_asarray s))
       else if length (tiff_series tiff) > 1
       then Inr (np_stack (map series_asarray (tiff_series tiff)))
       else tiff_asarray tiff)"

subsection \<open>Forcing a lazy array\<close>

text \<open>
  The lazy-array engine, as sections 4.6 and 6 of the specification describe it: the
  block merge turns each grid axis into an array axis, blocks of fewer dimensions
  being given leading axes of extent 1, and forcing the array forces every node. The
  grids built above end in two axes of extent 1, so the merged elements in row-major
  order are the planes in the order of the grid. \<open>index_first\<close> is \<open>data[0, :]\<close>.
\<close>

definition block_shape :: "nat list \<Rightarrow> nat list \<Rightarrow> nat list" where
  "block_shape grid chunk =
     (let n = max (length grid) (length chunk)
      in map2 (*) (replicate (n - length grid) 1 @ grid)
                  (replicate (n - length chunk) 1 @ chunk))"

definition lazy_shape :: "lazy_array \<Rightarrow> nat list" where
  "lazy_shape la =
     (let full = block_shape (la_grid la) (d_shape (snd (hd (la_blocks la))))
      in if la_first la then tl full else full)"

fun collect :: "(error + 'a) list \<Rightarrow> error + 'a list" where
  "collect [] = Inr []"
| "collect (x # xs) = ebind x (\<lambda>y. ebind (collect xs) (\<lambda>ys. Inr (y # ys)))"

definition index_first :: "'a ndarray \<Rightarrow> 'a ndarray" where
  "index_first a =
     \<lparr>a_shape = tl (a_shape a), a_data = take (prod_list (tl (a_shape a))) (a_data a)\<rparr>"

definition compute :: "'a TiffFile \<Rightarrow> lazy_array \<Rightarrow> error + 'a ndarray" where
  "compute img la =
     ebind (collect (map (\<lambda>(np_index, d). imread img (int (d_scene d)) (int (d_page d)))
                         (la_blocks la))) (\<lambda>planes.
       let full = \<lparr>a_shape = block_shape (la_grid la) (d_shape (snd (hd (la_blocks la)))),
                   a_data = concat (map a_data planes)\<rparr>
       in Inr (if la_first la then index_first full else full))"

section \<open>Dimension labels and properties (lines 187-282)\<close>

text \<open>
  Modelled from the spec: the class \<open>Dimensions\<close> of \<open>constants.py\<close> is imported by
  \<open>tiff_reader.py\<close> but its file is not part of the sources at hand. It gives the
  recognised alphabet in its default order and the label of the scene axis; the
  functions below take it as a parameter. \<open>aics_dimensions\<close> holds the labels the
  specification names (sections 3 and 8): scene, time, channel, Z, Y, X.
\<close>

record Dimensions =
  DefaultOrder :: string
  Scene :: string

definition aics_dimensions :: Dimensions where
  "aics_dimensions = \<lparr>DefaultOrder = ''STCZYX'', Scene = ''S''\<rparr>"

record TiffProperties =
  dims :: string
  shape :: "nat list"
  dtype :: dtype

text \<open>
  The loops of \<open>TiffReader._guess_tiff_dims\<close>, lines 190-212, over the two names they
  read: \<open>guess\<close> and \<open>single_scene_dims\<close>. \<open>first_unused\<close> is the inner loop, which
  stops at the first guessed label that is not yet in \<open>best_guess\<close>.
\<close>

fun first_unused :: "string \<Rightarrow> string \<Rightarrow> char option" where
  "first_unused [] best_guess = None"
| "first_unused (guessed_dim # guess) best_guess =
     (if guessed_dim \<notin> set best_guess then Some guessed_dim
      else first_unused guess best_guess)"

fun best_guess_loop :: "Dimensions \<Rightarrow> string \<Rightarrow> string \<Rightarrow> string \<Rightarrow> string" where
  "best_guess_loop D guess [] best_guess = best_guess"
| "best_guess_loop D guess (dim_from_meta # single_scene_dims) best_guess =
     (if dim_from_meta \<in> set (DefaultOrder D)
      then best_guess_loop D guess single_scene_dims (best_guess @ [dim_from_meta])
      else (case first_unused guess best_guess of
              Some guessed_dim \<Rightarrow>
                best_guess_loop D guess single_scene_dims (best_guess @ [guessed_dim])
            | None \<Rightarrow>
                best_guess_loop D guess single_scene_dims (best_guess @ [dim_from_meta])))"

text \<open>
  \<open>TiffReader._guess_tiff_dims\<close>, lines 187-212, as it runs. The method is static with
  the parameters \<open>tiff\<close> and \<open>S\<close>. Its first statement, line 189, evaluates the name
  \<open>self\<close>, which is bound neither in the method nor in the module, so every call
  raises \<open>NameError\<close> before the loops are reached; the name \<open>single_scene_dims\<close> of
  line 191 is a local of the caller and is unbound here as well.
\<close>

definition guess_tiff_dims :: "'a TiffFile \<Rightarrow> int \<Rightarrow> error + string" where
  "guess_tiff_dims tiff S = Inl NameError"

text \<open>\<open>TiffReader._get_tiff_properties\<close>, lines 214-252.\<close>

definition get_tiff_properties ::
  "Dimensions \<Rightarrow> 'a TiffFile \<Rightarrow> int \<Rightarrow> error + TiffProperties" where
  "get_tiff_properties D tiff S =
     ebind (py_index (tiff_series tiff) S) (\<lambda>scene.
     ebind (py_index (tiff_pages tiff) 0) (\<lambda>page0.
       let single_scene_dims = pages_axes scene;
           single_scene_shape = pages_shape scene;
           dtype = page_dtype page0
       in if list_all (\<lambda>d. d \<in> set (DefaultOrder D)) single_scene_dims
          then ebind (if length (tiff_series tiff) > 1
                      then scene_shape_is_consistent tiff else Inr False) (\<lambda>multi.
                 if multi
                 then Inr \<lparr>dims = Scene D @ single_scene_dims,
                           shape = length (tiff_series tiff) # single_scene_shape,
                           dtype = dtype\<rparr>
                 else Inr \<lparr>dims = single_scene_dims, shape = single_scene_shape,
                           dtype = dtype\<rparr>)
          else ebind (guess_tiff_dims tiff S) (\<lambda>dims_best_guess.
               ebind (if length (tiff_series tiff) > 1
                      then scene_shape_is_consistent tiff else Inr False) (\<lambda>multi.
                 if multi
                 then Inr \<lparr>dims = Scene D @ dims_best_guess,
                           shape = length (tiff_series tiff) # single_scene_shape,
                           dtype = dtype\<rparr>
                 else Inr \<lparr>dims = dims_best_guess, shape = single_scene_shape,
                           dtype = dtype\<rparr>))))"

subsection \<open>The cached properties (lines 49-58 and 254-282)\<close>

text \<open>
  The reader holds its file, the selected scene and the three cached properties
  \<open>_dims\<close>, \<open>_shape\<close>, \<open>_dtype\<close>. \<open>introspections\<close> is not a field of the class: it
  counts the calls of \<open>_get_tiff_properties\<close>, the only place where the getters open
  the container.

  Modelled from the spec: \<open>_dims\<close> is initialised by the base class \<open>Reader\<close>, whose
  file is not part of the sources at hand; by section 3 of the specification the cache
  is empty until the properties are first computed.
\<close>

record 'a TiffReader =
  r_file :: "'a TiffFile"
  specific_s_index :: int
  cached_dims :: "string option"
  cached_shape :: "nat list option"
  cached_dtype :: "dtype option"
  introspections :: nat

definition new_TiffReader :: "'a TiffFile \<Rightarrow> int \<Rightarrow> 'a TiffReader" where
  "new_TiffReader data S =
     \<lparr>r_file = data, specific_s_index = S, cached_dims = None, cached_shape = None,
      cached_dtype = None, introspections = 0\<rparr>"

text \<open>
  The body shared by the three getters: call \<open>_get_tiff_properties\<close> and store its
  three results. An exception leaves the cache as it was.
\<close>

definition load_properties :: "Dimensions \<Rightarrow> 'a TiffReader \<Rightarrow> error option \<times> 'a TiffReader" where
  "load_properties D r =
     (let r = r\<lparr>introspections := introspections r + 1\<rparr>
      in case get_tiff_properties D (r_file r) (specific_s_index r) of
           Inl e \<Rightarrow> (Some e, r)
         | Inr props \<Rightarrow>
             (None, r\<lparr>cached_dims := Some (dims props), cached_shape := Some (shape props),
                      cached_dtype := Some (dtype props)\<rparr>))"

text \<open>The getters \<open>dims\<close>, \<open>shape\<close> and \<open>dtype\<close>, lines 254-282.\<close>

definition reader_dims :: "Dimensions \<Rightarrow> 'a TiffReader \<Rightarrow> (error + string) \<times> 'a TiffReader" where
  "reader_dims D r =
     (if cached_dims r = None
      then (case load_properties D r of
              (Some e, r') \<Rightarrow> (Inl e, r')
            | (None, r') \<Rightarrow> (Inr (the (cached_dims r')), r'))
      else (Inr (the (cached_dims r)), r))"

definition reader_shape :: "Dimensions \<Rightarrow> 'a TiffReader \<Rightarrow> (error + nat list) \<times> 'a TiffReader" where
  "reader_shape D r =
     (if cached_shape r = None
      then (case load_properties D r of
              (Some e, r') \<Rightarrow> (Inl e, r')
            | (None, r') \<Rightarrow> (Inr (the (cached_shape r')), r'))
      else (Inr (the (cached_shape r)), r))"

definition reader_dtype :: "Dimensions \<Rightarrow> 'a TiffReader \<Rightarrow> (error + dtype) \<times> 'a TiffReader" where
  "reader_dtype D r =
     (if cached_dtype r = None
      then (case load_properties D r of
              (Some e, r') \<Rightarrow> (Inl e, r')
            | (None, r') \<Rightarrow> (Inr (the (cached_dtype r')), r'))
      else (Inr (the (cached_dtype r)), r))"


text \<open>
  A caller's use of one reader: a sequence of getter calls, each on the state the
  previous call left, with what each call returned.
\<close>

datatype getter = Dims | Shape | Dtype

datatype prop_value = DimsV string | ShapeV "nat list" | DtypeV dtype

fun call_getter ::
  "Dimensions \<Rightarrow> getter \<Rightarrow> 'a TiffReader \<Rightarrow> (error + prop_value) \<times> 'a TiffReader" where
  "call_getter D Dims r = (case reader_dims D r of (res, r') \<Rightarrow> (map_sum id DimsV res, r'))"
| "call_getter D Shape r = (case reader_shape D r of (res, r') \<Rightarrow> (map_sum id ShapeV res, r'))"
| "call_getter D Dtype r = (case reader_dtype D r of (res, r') \<Rightarrow> (map_sum id DtypeV res, r'))"

fun call_getters ::
  "Dimensions \<Rightarrow> getter list \<Rightarrow> 'a TiffReader \<Rightarrow> (error + prop_value) list \<times> 'a TiffReader" where
  "call_getters D [] r = ([], r)"
| "call_getters D (g # gs) r =
     (case call_getter D g r of
        (res, r') \<Rightarrow> (case call_getters D gs r' of (ress, r'') \<Rightarrow> (res # ress, r'')))"


subsection \<open>Sample containers\<close>

text \<open>
  Little-endian classic containers with one directory of one entry at offset 8, the
  pointer to the next directory (0) at offset 22, and the bytes \<open>hi!\<close> with their
  terminator at offset 26. The entry is: tag 271; tag 270 with count 4; tag 270 with
  count 0; tag 270 with count 0 and offset 0.
\<close>

definition ex_no_tag :: "byte list" where
  "ex_no_tag =
     [73, 73, 42, 0, 8, 0, 0, 0, 1, 0, 15, 1, 2, 0, 4, 0, 0, 0, 26, 0, 0, 0, 0, 0, 0, 0,
      104, 105, 33, 0]"

definition ex_description :: "byte list" where
  "ex_description =
     [73, 73, 42, 0, 8, 0, 0, 0, 1, 0, 14, 1, 2, 0, 4, 0, 0, 0, 26, 0, 0, 0, 0, 0, 0, 0,
      104, 105, 33, 0]"



text \<open>
  Decoded containers: one scene of one 100 by 100 page; three scenes of shape
  (5, 100, 100) each, with the axes given; one scene of shape (3, 2, 100, 100) with the
  axes \<open>QCYX\<close>, where \<open>Q\<close> is not a recognised label; a scene without pages; a
  container without scenes.
\<close>

definition ex_plane :: "nat TiffPage" where
  "ex_plane =
     \<lparr>page_dtype = ''uint16'',
      page_asarray = \<lparr>a_shape = [100, 100], a_data = replicate 10000 0\<rparr>\<rparr>"

definition ex_single :: "nat TiffFile" where
  "ex_single =
     \<lparr>tiff_series = [\<lparr>series_shape = [100, 100], pages_axes = ''YX'',
                       pages_shape = [100, 100], series_pages = [ex_plane]\<rparr>],
      tiff_pages = [ex_plane]\<rparr>"

definition ex_scene :: "string \<Rightarrow> nat TiffPageSeries" where
  "ex_scene axes =
     \<lparr>series_shape = [5, 100, 100], pages_axes = axes, pages_shape = [5, 100, 100],
      series_pages = replicate 5 ex_plane\<rparr>"

definition ex_three :: "string \<Rightarrow> nat TiffFile" where
  "ex_three axes =
     \<lparr>tiff_series = [ex_scene axes, ex_scene axes, ex_scene axes],
      tiff_pages = replicate 15 ex_plane\<rparr>"

definition ex_unknown :: "nat TiffFile" where
  "ex_unknown =
     \<lparr>tiff_series = [\<lparr>series_shape = [3, 2, 100, 100], pages_axes = ''QCYX'',
                       pages_shape = [3, 2, 100, 100], series_pages = replicate 6 ex_plane\<rparr>],
      tiff_pages = replicate 6 ex_plane\<rparr>"

definition ex_no_pages :: "nat TiffFile" where
  "ex_no_pages =
     \<lparr>tiff_series = [\<lparr>series_shape = [100, 100], pages_axes = ''YX'',
                       pages_shape = [100, 100], series_pages = []\<rparr>],
      tiff_pages = []\<rparr>"

definition ex_empty :: "nat TiffFile" where
  "ex_empty = \<lparr>tiff_series = [], tiff_pages = []\<rparr>"

text \<open>
  Two scenes of two pages each, and the lazy array the assembly builds for them.
\<close>

definition ex_two :: "nat TiffFile" where
  "ex_two =
     \<lparr>tiff_series =
        [\<lparr>series_shape = [2, 100, 100], pages_axes = ''ZYX'', pages_shape = [2, 100, 100],
          series_pages = [ex_plane, ex_plane]\<rparr>,
         \<lparr>series_shape = [2, 100, 100], pages_axes = ''ZYX'', pages_shape = [2, 100, 100],
          series_pages = [ex_plane, ex_plane]\<rparr>],
      tiff_pages = [ex_plane, ex_plane, ex_plane, ex_plane]\<rparr>"

definition ex_node :: "nat \<Rightarrow> nat \<Rightarrow> delayed" where
  "ex_node scene page =
     \<lparr>d_scene = scene, d_page = page, d_shape = [100, 100], d_dtype = ''uint16''\<rparr>"

definition ex_two_lazy :: lazy_array where
  "ex_two_lazy =
     \<lparr>la_grid = [2, 2, 1, 1],
      la_blocks = [([0, 0, 0, 0], ex_node 0 0), ([0, 1, 0, 0], ex_node 0 1),
                   ([1, 0, 0, 0], ex_node 1 1), ([1, 1, 0, 0], ex_node 1 1)],
      la_first = False\<rparr>"

section \<open>Reading at a known position\<close>

lemmas cursor_defs =
  new_BufferReader_def INTEL_ENDIAN_def MOTOROLA_ENDIAN_def read_uint_def ebind_def
  to_uint_def seek_def

lemma read_uint_get:
  "get_uint e bs k p = Some v \<Longrightarrow>
   read_uint k \<lparr>buffer = bs, pos = p, endianness = e\<rparr> =
     Inr (v, \<lparr>buffer = bs, pos = p + k, endianness = e\<rparr>)"
  by (auto simp: get_uint_def read_uint_def split: if_splits)

lemma get_uint_length: "get_uint e bs k p = Some v \<Longrightarrow> p + k \<le> length bs"
  by (simp add: get_uint_def split: if_splits)

lemma new_BufferReader_header:
  "get_uint e bs 2 2 = Some m \<Longrightarrow>
   new_BufferReader bs = \<lparr>buffer = bs, pos = 2, endianness = take 2 bs\<rparr>"
  by (simp add: new_BufferReader_def get_uint_def split: if_splits)

section \<open>Properties of the format check\<close>

text \<open>
  Claim C1. The classifier is to answer "not recognised" for every stream whose first
  two bytes are a valid endianness marker and whose 16-bit magic is neither 42 nor 43.
  The code falls through both magic tests to its final \<open>return True\<close>: the
  little-endian stream \<open>II\<close>, magic 7 is accepted as a TIFF.
\<close>

theorem is_this_type_unknown_magic:
  "is_this_type [73, 73, 7, 0] = Inr True"
  by (simp add: is_this_type_def cursor_defs)

text \<open>
  The same holds of every stream with a valid marker and another magic. The headers
  that the format describes are told apart by their first directory offset alone, and
  a stream without a valid marker is rejected.
\<close>

lemma is_this_type_other_magic:
  assumes "take 2 bs \<in> {INTEL_ENDIAN, MOTOROLA_ENDIAN}"
    and "get_uint (take 2 bs) bs 2 2 = Some magic" and "magic \<noteq> 42" and "magic \<noteq> 43"
  shows "is_this_type bs = Inr True"
  using assms(1,3,4)
  by (auto simp: is_this_type_def ebind_def new_BufferReader_header [OF assms(2)]
      read_uint_get [OF assms(2)])

lemma is_this_type_classic:
  assumes "tiff_header Classic bs" and "get_uint (take 2 bs) bs 4 4 = Some ifd_offset"
  shows "is_this_type bs = Inr (ifd_offset \<noteq> 0)"
proof -
  from assms(1) have e: "take 2 bs \<in> {INTEL_ENDIAN, MOTOROLA_ENDIAN}"
    and m: "get_uint (take 2 bs) bs 2 2 = Some 42" by simp_all
  show ?thesis using e
    by (auto simp: is_this_type_def ebind_def new_BufferReader_header [OF m] read_uint_get [OF m]
        read_uint_get [OF assms(2)])
qed

lemma is_this_type_big:
  assumes "tiff_header Big bs" and "get_uint (take 2 bs) bs 8 8 = Some ifd_offset"
  shows "is_this_type bs = Inr (ifd_offset \<noteq> 0)"
proof -
  from assms(1) have e: "take 2 bs \<in> {INTEL_ENDIAN, MOTOROLA_ENDIAN}"
    and m: "get_uint (take 2 bs) bs 2 2 = Some 43"
    and m8: "get_uint (take 2 bs) bs 2 4 = Some 8"
    and m0: "get_uint (take 2 bs) bs 2 6 = Some 0" by simp_all
  show ?thesis using e
    by (auto simp: is_this_type_def ebind_def new_BufferReader_header [OF m] read_uint_get [OF m]
        read_uint_get [OF m8] read_uint_get [OF m0] read_uint_get [OF assms(2)])
qed

lemma is_this_type_no_marker:
  "take 2 bs \<notin> {INTEL_ENDIAN, MOTOROLA_ENDIAN} \<Longrightarrow> is_this_type bs = Inr False"
  by (simp add: is_this_type_def new_BufferReader_def)

section \<open>Properties of the description extractor\<close>


lemma scan_entries_step:
  "entries_at e bs w p (x # xs) \<Longrightarrow>
   scan_entries w (Suc n) \<lparr>buffer = bs, pos = p, endianness = e\<rparr> =
     (if e_tag x = 270
      then Inr (Some (int (e_count x) - 1, e_offset x),
                \<lparr>buffer = bs, pos = p + 4 + 2 * w, endianness = e\<rparr>)
      else scan_entries w n \<lparr>buffer = bs, pos = p + 4 + 2 * w, endianness = e\<rparr>)"
proof -
  assume a: "entries_at e bs w p (x # xs)"
  have p4: "p + 2 + 2 = p + 4" and pw: "p + 4 + w + w = p + 4 + 2 * w" by simp_all
  from a have g: "get_uint e bs 2 p = Some (e_tag x)"
      "get_uint e bs 2 (p + 2) = Some (e_type x)"
      "get_uint e bs w (p + 4) = Some (e_count x)"
      "get_uint e bs w (p + 4 + w) = Some (e_offset x)" by simp_all
  show ?thesis
    by (simp only: scan_entries.simps read_uint_get [OF g(1)] read_uint_get [OF g(2)]
        read_uint_get [OF g(3)] read_uint_get [OF g(4)] ebind_def sum.case prod.case p4 pw)
qed


lemma scan_entries_none:
  "entries_at e bs w p es \<Longrightarrow> \<forall>x\<in>set es. e_tag x \<noteq> 270 \<Longrightarrow>
   scan_entries w (length es) \<lparr>buffer = bs, pos = p, endianness = e\<rparr> =
     Inr (None, \<lparr>buffer = bs, pos = p + length es * (4 + 2 * w), endianness = e\<rparr>)"
proof (induction es arbitrary: p)
  case Nil
  then show ?case by simp
next
  case (Cons x xs)
  from Cons.prems have rest: "entries_at e bs w (p + 4 + 2 * w) xs"
      "\<forall>x\<in>set xs. e_tag x \<noteq> 270" and x: "e_tag x \<noteq> 270" by simp_all
  have pos: "p + 4 + 2 * w + length xs * (4 + 2 * w) = p + length (x # xs) * (4 + 2 * w)"
    by simp
  have "scan_entries w (length (x # xs)) \<lparr>buffer = bs, pos = p, endianness = e\<rparr> =
        scan_entries w (length xs) \<lparr>buffer = bs, pos = p + 4 + 2 * w, endianness = e\<rparr>"
    using scan_entries_step [OF Cons.prems(1)] x by simp
  also have "\<dots> = Inr (None, \<lparr>buffer = bs, pos = p + length (x # xs) * (4 + 2 * w),
                               endianness = e\<rparr>)"
    using Cons.IH [OF rest] by (simp only: pos)
  finally show ?case .
qed

lemma scan_entries_found:
  "entries_at e bs w p (es @ [x]) \<Longrightarrow> \<forall>y\<in>set es. e_tag y \<noteq> 270 \<Longrightarrow> e_tag x = 270 \<Longrightarrow>
   length es < n \<Longrightarrow>
   \<exists>q. scan_entries w n \<lparr>buffer = bs, pos = p, endianness = e\<rparr> =
     Inr (Some (int (e_count x) - 1, e_offset x), \<lparr>buffer = bs, pos = q, endianness = e\<rparr>)"
proof (induction es arbitrary: p n)
  case Nil
  then obtain m where n: "n = Suc m" by (cases n) auto
  from Nil.prems(1) have "entries_at e bs w p (x # [])" by simp
  from scan_entries_step [OF this] Nil.prems(3) show ?case unfolding n by simp
next
  case (Cons y ys)
  then obtain m where n: "n = Suc m" and m: "length ys < m" by (cases n) auto
  from Cons.prems have rest: "entries_at e bs w (p + 4 + 2 * w) (ys @ [x])"
      "\<forall>y\<in>set ys. e_tag y \<noteq> 270" and y: "e_tag y \<noteq> 270" by simp_all
  from Cons.prems(1) have "entries_at e bs w p (y # (ys @ [x]))" by simp
  from scan_entries_step [OF this] y
  have "scan_entries w (Suc m) \<lparr>buffer = bs, pos = p, endianness = e\<rparr> =
        scan_entries w m \<lparr>buffer = bs, pos = p + 4 + 2 * w, endianness = e\<rparr>"
    by simp
  with Cons.IH [OF rest Cons.prems(3) m] show ?case unfolding n by simp
qed

lemma find_description_step:
  "get_uint e bs w p = Some off \<Longrightarrow> off \<noteq> 0 \<Longrightarrow> get_uint e bs cw off = Some n \<Longrightarrow>
   find_description cw w (Suc fuel) \<lparr>buffer = bs, pos = p, endianness = e\<rparr> =
     (case scan_entries w n \<lparr>buffer = bs, pos = off + cw, endianness = e\<rparr> of
        Inl e \<Rightarrow> Some (Raised e)
      | Inr (Some (len, off), r3) \<Rightarrow> Some (Found len off r3)
      | Inr (None, r3) \<Rightarrow> find_description cw w fuel r3)"
  by (simp add: read_uint_get seek_def)

lemma find_description_end:
  "get_uint e bs w p = Some 0 \<Longrightarrow>
   find_description cw w (Suc fuel) \<lparr>buffer = bs, pos = p, endianness = e\<rparr> = Some ReturnNone"
  by (simp add: read_uint_get)

lemma chain_end_Cons:
  assumes "chain_end e bs cw w p (d # ds) = Some q"
  obtains off where "get_uint e bs w p = Some off" "off \<noteq> 0"
    "get_uint e bs cw off = Some (length d)" "entries_at e bs w (off + cw) d"
    "chain_end e bs cw w (off + cw + length d * (4 + 2 * w)) ds = Some q"
  using assms by (auto simp: ifd_at_def split: option.splits if_splits)

lemma find_description_skip:
  assumes "chain_end e bs cw w p (d # ds) = Some q" "\<forall>x\<in>set d. e_tag x \<noteq> 270"
  obtains p' where "chain_end e bs cw w p' ds = Some q"
    "find_description cw w (Suc fuel) \<lparr>buffer = bs, pos = p, endianness = e\<rparr> =
     find_description cw w fuel \<lparr>buffer = bs, pos = p', endianness = e\<rparr>"
proof -
  from assms(1) obtain off where off: "get_uint e bs w p = Some off" "off \<noteq> 0"
    "get_uint e bs cw off = Some (length d)" "entries_at e bs w (off + cw) d"
    "chain_end e bs cw w (off + cw + length d * (4 + 2 * w)) ds = Some q"
    by (rule chain_end_Cons)
  have "find_description cw w (Suc fuel) \<lparr>buffer = bs, pos = p, endianness = e\<rparr> =
     find_description cw w fuel
       \<lparr>buffer = bs, pos = off + cw + length d * (4 + 2 * w), endianness = e\<rparr>"
    by (simp only: find_description_step [OF off(1,2,3)]
        scan_entries_none [OF off(4) assms(2)] sum.case prod.case option.case)
  with off(5) show ?thesis by (rule that)
qed

lemma find_description_none:
  "chain_end e bs cw w p dirs = Some q \<Longrightarrow> get_uint e bs w q = Some 0 \<Longrightarrow>
   \<forall>d\<in>set dirs. \<forall>x\<in>set d. e_tag x \<noteq> 270 \<Longrightarrow> length dirs < fuel \<Longrightarrow>
   find_description cw w fuel \<lparr>buffer = bs, pos = p, endianness = e\<rparr> = Some ReturnNone"
proof (induction dirs arbitrary: p fuel)
  case Nil
  then obtain m where f: "fuel = Suc m" by (cases fuel) auto
  from Nil.prems(1) have "q = p" by simp
  with Nil.prems(2) have "get_uint e bs w p = Some 0" by simp
  then show ?case unfolding f by (rule find_description_end)
next
  case (Cons d ds)
  then obtain m where f: "fuel = Suc m" and m: "length ds < m" by (cases fuel) auto
  from Cons.prems(3) have no: "\<forall>x\<in>set d. e_tag x \<noteq> 270"
      and no': "\<forall>d\<in>set ds. \<forall>x\<in>set d. e_tag x \<noteq> 270" by simp_all
  from Cons.prems(1) no obtain p' where p': "chain_end e bs cw w p' ds = Some q"
    "find_description cw w (Suc m) \<lparr>buffer = bs, pos = p, endianness = e\<rparr> =
     find_description cw w m \<lparr>buffer = bs, pos = p', endianness = e\<rparr>"
    by (rule find_description_skip)
  from Cons.IH [OF p'(1) Cons.prems(2) no' m] p'(2) f show ?case by simp
qed

lemma find_description_found:
  "chain_end e bs cw w p dirs = Some q \<Longrightarrow> get_uint e bs w q = Some off \<Longrightarrow> off \<noteq> 0 \<Longrightarrow>
   get_uint e bs cw off = Some n \<Longrightarrow> entries_at e bs w (off + cw) (es @ [x]) \<Longrightarrow>
   length es < n \<Longrightarrow>
   \<forall>d\<in>set dirs. \<forall>y\<in>set d. e_tag y \<noteq> 270 \<Longrightarrow> \<forall>y\<in>set es. e_tag y \<noteq> 270 \<Longrightarrow>
   e_tag x = 270 \<Longrightarrow> length dirs < fuel \<Longrightarrow>
   \<exists>p'. find_description cw w fuel \<lparr>buffer = bs, pos = p, endianness = e\<rparr> =
     Some (Found (int (e_count x) - 1) (e_offset x) \<lparr>buffer = bs, pos = p', endianness = e\<rparr>)"
proof (induction dirs arbitrary: p fuel)
  case Nil
  then obtain m where f: "fuel = Suc m" by (cases fuel) auto
  from Nil.prems(1) have q: "q = p" by simp
  from scan_entries_found [OF Nil.prems(5) Nil.prems(8) Nil.prems(9) Nil.prems(6)]
  obtain p' where "scan_entries w n \<lparr>buffer = bs, pos = off + cw, endianness = e\<rparr> =
     Inr (Some (int (e_count x) - 1, e_offset x), \<lparr>buffer = bs, pos = p', endianness = e\<rparr>)"
    by blast
  then show ?case unfolding f
    using find_description_step [OF Nil.prems(2) [unfolded q] Nil.prems(3) Nil.prems(4)]
    by simp
next
  case (Cons d ds)
  then obtain m where f: "fuel = Suc m" and m: "length ds < m" by (cases fuel) auto
  from Cons.prems(7) have no: "\<forall>x\<in>set d. e_tag x \<noteq> 270"
      and no': "\<forall>d\<in>set ds. \<forall>x\<in>set d. e_tag x \<noteq> 270" by simp_all
  from Cons.prems(1) no obtain p' where p': "chain_end e bs cw w p' ds = Some q"
    "find_description cw w (Suc m) \<lparr>buffer = bs, pos = p, endianness = e\<rparr> =
     find_description cw w m \<lparr>buffer = bs, pos = p', endianness = e\<rparr>"
    by (rule find_description_skip)
  from Cons.IH [OF p'(1) Cons.prems(2-6) no' Cons.prems(8,9) m] p'(2) f show ?case by simp
qed


lemma get_image_description_walk:
  assumes "tiff_header v bs"
  shows "get_image_description fuel bs =
     after_walk (find_description (count_width v) (field_width v) fuel
        \<lparr>buffer = bs, pos = first_pointer v, endianness = take 2 bs\<rparr>)"
proof (cases v)
  case Classic
  with assms have e: "take 2 bs \<in> {INTEL_ENDIAN, MOTOROLA_ENDIAN}"
    and m: "get_uint (take 2 bs) bs 2 2 = Some 42" by simp_all
  from get_uint_length [OF m] have new: "new_BufferReader bs =
      \<lparr>buffer = bs, pos = 2, endianness = take 2 bs\<rparr>"
    by (simp add: new_BufferReader_def)
  show ?thesis using e
    by (auto simp: get_image_description_def new read_uint_get [OF m] Classic)
next
  case Big
  with assms have e: "take 2 bs \<in> {INTEL_ENDIAN, MOTOROLA_ENDIAN}"
    and m: "get_uint (take 2 bs) bs 2 2 = Some 43"
    and m8: "get_uint (take 2 bs) bs 2 4 = Some 8"
    and m0: "get_uint (take 2 bs) bs 2 6 = Some 0" by simp_all
  from get_uint_length [OF m] have new: "new_BufferReader bs =
      \<lparr>buffer = bs, pos = 2, endianness = take 2 bs\<rparr>"
    by (simp add: new_BufferReader_def)
  show ?thesis using e
    by (auto simp: get_image_description_def new read_uint_get [OF m] read_uint_get [OF m8]
        read_uint_get [OF m0] Big)
qed

lemma first_description_walk:
  assumes "first_description v bs dirs es x" and "length dirs < fuel"
  shows "\<exists>p. get_image_description fuel bs =
     Some (read_description (int (e_count x) - 1) (e_offset x)
        \<lparr>buffer = bs, pos = p, endianness = take 2 bs\<rparr>)"
proof -
  from assms(1) obtain q off n where h: "tiff_header v bs"
    and c: "chain_end (take 2 bs) bs (count_width v) (field_width v) (first_pointer v) dirs
            = Some q"
    and o: "get_uint (take 2 bs) bs (field_width v) q = Some off" "off \<noteq> 0"
    and n: "get_uint (take 2 bs) bs (count_width v) off = Some n" "length es < n"
    and es: "entries_at (take 2 bs) bs (field_width v) (off + count_width v) (es @ [x])"
    and t: "e_tag x = 270" and no: "270 \<notin> set (map e_tag (concat dirs @ es))"
    by (auto simp: first_description_def split: option.splits)
  from no have no1: "\<forall>d\<in>set dirs. \<forall>y\<in>set d. e_tag y \<noteq> 270"
    and no2: "\<forall>y\<in>set es. e_tag y \<noteq> 270" by auto
  from find_description_found [OF c o n(1) es n(2) no1 no2 t assms(2)]
  obtain p where "find_description (count_width v) (field_width v) fuel
       \<lparr>buffer = bs, pos = first_pointer v, endianness = take 2 bs\<rparr> =
     Some (Found (int (e_count x) - 1) (e_offset x)
        \<lparr>buffer = bs, pos = p, endianness = take 2 bs\<rparr>)" by blast
  then have "get_image_description fuel bs =
     Some (read_description (int (e_count x) - 1) (e_offset x)
        \<lparr>buffer = bs, pos = p, endianness = take 2 bs\<rparr>)"
    by (simp add: get_image_description_walk [OF h] after_walk_def)
  then show ?thesis ..
qed

lemmas layout_defs =
  get_uint_def to_uint_def INTEL_ENDIAN_def MOTOROLA_ENDIAN_def ifd_chain_def
  first_description_def ifd_at_def

lemma ex_no_tag_chain:
  "ifd_chain Classic ex_no_tag [[\<lparr>e_tag = 271, e_type = 2, e_count = 4, e_offset = 26\<rparr>]]"
  by (simp add: layout_defs ex_no_tag_def)

lemma ex_description_first:
  "first_description Classic ex_description [] []
     \<lparr>e_tag = 270, e_type = 2, e_count = 4, e_offset = 26\<rparr>"
  by (simp add: layout_defs ex_description_def)



text \<open>
  Claim C2, as stated: on a container whose chain holds no entry with tag 270, the
  extractor returns an empty byte sequence. It does not: the walk ends at the zero
  pointer with \<open>return None\<close>, here on a classic container with one directory whose
  only entry has tag 271.
\<close>

theorem get_image_description_no_tag_counterexample:
  "ifd_chain Classic ex_no_tag [[\<lparr>e_tag = 271, e_type = 2, e_count = 4, e_offset = 26\<rparr>]]
   \<and> get_image_description 2 ex_no_tag = Some (Inr None)
   \<and> get_image_description 2 ex_no_tag \<noteq> Some (Inr (Some []))"
proof -
  have "get_image_description (Suc (Suc 0)) ex_no_tag = Some (Inr None)"
    by (simp add: get_image_description_def ex_no_tag_def cursor_defs after_walk_def)
  then show ?thesis using ex_no_tag_chain by (simp add: numeral_2_eq_2)
qed

text \<open>
  Claim C2, amended: for every classic or BigTIFF container whose directory chain
  ends with a zero pointer and holds no entry with tag 270, the extractor returns
  \<open>None\<close>, the absent description, and raises nothing; one loop iteration per
  directory and one more for the zero pointer are enough.
\<close>

theorem get_image_description_no_tag:
  assumes "ifd_chain v bs dirs" and "270 \<notin> set (map e_tag (concat dirs))"
    and "length dirs < fuel"
  shows "get_image_description fuel bs = Some (Inr None)"
proof -
  from assms(1) obtain q where h: "tiff_header v bs"
    and c: "chain_end (take 2 bs) bs (count_width v) (field_width v) (first_pointer v) dirs
            = Some q"
    and z: "get_uint (take 2 bs) bs (field_width v) q = Some 0"
    by (auto simp: ifd_chain_def split: option.splits)
  from assms(2) have no: "\<forall>d\<in>set dirs. \<forall>x\<in>set d. e_tag x \<noteq> 270" by auto
  show ?thesis
    by (simp add: get_image_description_walk [OF h]
        find_description_none [OF c z no assms(3)] after_walk_def)
qed

theorem get_image_description_no_tag_witness:
  "ifd_chain Classic ex_no_tag [[\<lparr>e_tag = 271, e_type = 2, e_count = 4, e_offset = 26\<rparr>]]
   \<and> get_image_description 2 ex_no_tag = Some (Inr None)"
  using get_image_description_no_tag [of Classic ex_no_tag
      "[[\<lparr>e_tag = 271, e_type = 2, e_count = 4, e_offset = 26\<rparr>]]" 2] ex_no_tag_chain
  by simp

text \<open>
  Claim C5: when the first entry with tag 270 met along the chain has the stored count
  \<open>L + 1\<close> and an offset that is not 0 and leaves \<open>L\<close> bytes before the end of the
  stream, the extractor returns exactly the \<open>L\<close> bytes at that offset: the description
  without its terminator.
\<close>

theorem get_image_description_roundtrip:
  assumes "first_description v bs dirs es x" and "e_count x = L + 1"
    and "e_offset x \<noteq> 0" and "e_offset x + L \<le> length bs" and "length dirs < fuel"
  shows "get_image_description fuel bs = Some (Inr (Some (take L (drop (e_offset x) bs))))
       \<and> length (take L (drop (e_offset x) bs)) = L"
proof -
  from first_description_walk [OF assms(1,5)] obtain p where
    "get_image_description fuel bs =
       Some (read_description (int (e_count x) - 1) (e_offset x)
          \<lparr>buffer = bs, pos = p, endianness = take 2 bs\<rparr>)" by blast
  with assms(2,3,4) show ?thesis
    by (simp add: read_description_def buffer_read_def seek_def)
qed

theorem get_image_description_roundtrip_witness:
  "first_description Classic ex_description [] []
     \<lparr>e_tag = 270, e_type = 2, e_count = 4, e_offset = 26\<rparr>
   \<and> get_image_description 1 ex_description = Some (Inr (Some [104, 105, 33]))"
  using get_image_description_roundtrip [of Classic ex_description "[]" "[]"
      "\<lparr>e_tag = 270, e_type = 2, e_count = 4, e_offset = 26\<rparr>" 3 1] ex_description_first
  by (simp add: ex_description_def)




section \<open>Properties of the lazy assembly\<close>

lemma ebind_simps [simp]:
  "ebind (Inl e) f = Inl e" "ebind (Inr x) f = f x"
  by (simp_all add: ebind_def)

lemma py_index_Nil [simp]: "py_index [] i = Inl IndexError"
  by (simp add: py_index_def Let_def)

lemma py_index_0 [simp]: "py_index (x # xs) 0 = Inr x"
  by (simp add: py_index_def Let_def)

lemma py_index_cases: "py_index xs i = Inl IndexError \<or> (\<exists>x\<in>set xs. py_index xs i = Inr x)"
  by (auto simp: py_index_def Let_def)

lemma ex_plane_dtype: "page_dtype ex_plane = ''uint16''"
  by (simp add: ex_plane_def)

text \<open>
  Claim C4, as stated: on a container with zero scenes or zero pages the lazy assembly
  fails with \<open>EmptyContainerError\<close>. On the container without scenes it fails
  with \<open>IndexError\<close>, raised by \<open>scenes[0]\<close> in line 128.
\<close>

theorem read_delayed_empty_counterexample:
  "read_delayed ex_empty 0 = Inl IndexError \<and> read_delayed ex_empty 0 \<noteq> Inl EmptyContainerError"
  by (simp add: read_delayed_def ex_empty_def)

text \<open>No run of the assembly ends in \<open>EmptyContainerError\<close>.\<close>

lemma read_delayed_never_empty_container_error:
  "read_delayed tiff S \<noteq> Inl EmptyContainerError"
  by (auto simp: read_delayed_def ebind_def py_index_def scene_shape_is_consistent_def Let_def
      split: sum.splits if_splits prod.splits)

text \<open>
  Claim C4, amended: on a container without scenes, and on a container whose scenes
  all have no pages, the lazy assembly fails with \<open>IndexError\<close>, for every selected
  scene.
\<close>

theorem read_delayed_empty:
  assumes "tiff_series tiff = [] \<or> (\<forall>s\<in>set (tiff_series tiff). series_pages s = [])"
  shows "read_delayed tiff S = Inl IndexError"
proof (cases "tiff_series tiff")
  case Nil
  then show ?thesis by (simp add: read_delayed_def)
next
  case (Cons s0 ss)
  with assms have np: "\<forall>s\<in>set (tiff_series tiff). series_pages s = []" by simp
  have i0: "py_index (tiff_series tiff) 0 = Inr s0" by (simp add: Cons)
  obtain b where c: "scene_shape_is_consistent tiff = Inr b"
    by (simp add: scene_shape_is_consistent_def i0)
  from np Cons have p0: "series_pages s0 = []" by simp
  show ?thesis
  proof (cases b)
    case True
    have "py_index (tiff_series tiff) 0 = Inr s0" by (rule i0)
    with True p0 show ?thesis by (simp add: read_delayed_def c)
  next
    case False
    from py_index_cases [of "tiff_series tiff" S] show ?thesis
    proof
      assume "py_index (tiff_series tiff) S = Inl IndexError"
      with False show ?thesis by (simp add: read_delayed_def c i0)
    next
      assume "\<exists>x\<in>set (tiff_series tiff). py_index (tiff_series tiff) S = Inr x"
      then obtain x where x: "x \<in> set (tiff_series tiff)"
        and i: "py_index (tiff_series tiff) S = Inr x" by blast
      from x np have "series_pages x = []" by blast
      with False show ?thesis by (simp add: read_delayed_def c i0 i)
    qed
  qed
qed

theorem read_delayed_empty_witness:
  "(tiff_series ex_no_pages = [] \<or> (\<forall>s\<in>set (tiff_series ex_no_pages). series_pages s = []))
   \<and> read_delayed ex_no_pages 0 = Inl IndexError"
  using read_delayed_empty [of ex_no_pages 0] by (simp add: ex_no_pages_def)

subsection \<open>The enumeration of the grid\<close>

lemma length_ndindex: "length (ndindex ns) = prod_list ns"
proof (induction ns)
  case Nil
  then show ?case by simp
next
  case (Cons n ns)
  have "length (concat (map (\<lambda>i. map ((#) i) (ndindex ns)) [0..<n])) = n * prod_list ns"
    by (induction n) (simp_all add: Cons.IH)
  then show ?case by simp
qed

lemma concat_blocks_nth:
  assumes "\<And>i. i < n \<Longrightarrow> length (f i) = m" and "k < n * m"
  shows "concat (map f [0..<n]) ! k = f (k div m) ! (k mod m)"
  using assms
proof (induction n)
  case 0
  then show ?case by simp
next
  case (Suc n)
  have len: "length (concat (map f [0..<n])) = n * m"
    using Suc.prems(1) by (induction n) simp_all
  show ?case
  proof (cases "k < n * m")
    case True
    with Suc.IH [OF Suc.prems(1)] len show ?thesis by (simp add: nth_append)
  next
    case False
    with Suc.prems(2) have k: "n * m \<le> k" "k - n * m < m" by simp_all
    then have m: "0 < m" by simp
    from k have "k div m = n"
      by (metis Suc.prems(2) div_nat_eqI mult.commute)
    moreover from k this have "k mod m = k - n * m"
      by (metis minus_mult_div_eq_mod mult.commute)
    ultimately show ?thesis using False len by (simp add: nth_append)
  qed
qed

lemma ndindex_nth:
  assumes "k < n * prod_list ns"
  shows "ndindex (n # ns) ! k = (k div prod_list ns) # (ndindex ns ! (k mod prod_list ns))"
proof -
  from assms have pos: "0 < prod_list ns" by (cases "prod_list ns = 0") simp_all
  have "ndindex (n # ns) ! k =
        map ((#) (k div prod_list ns)) (ndindex ns) ! (k mod prod_list ns)"
    unfolding ndindex.simps
    by (rule concat_blocks_nth) (simp_all add: length_ndindex assms)
  with pos show ?thesis by (simp add: length_ndindex)
qed

lemma ravel_ndindex: "k < prod_list ns \<Longrightarrow> ravel ns (ndindex ns ! k) = k"
proof (induction ns arbitrary: k)
  case Nil
  then show ?case by simp
next
  case (Cons n ns)
  from Cons.prems have pos: "0 < prod_list ns" by (cases "prod_list ns = 0") simp_all
  from Cons.prems have "k < n * prod_list ns" by simp
  then have "ndindex (n # ns) ! k =
      (k div prod_list ns) # (ndindex ns ! (k mod prod_list ns))"
    by (rule ndindex_nth)
  moreover have "ravel ns (ndindex ns ! (k mod prod_list ns)) = k mod prod_list ns"
    using pos by (simp add: Cons.IH)
  ultimately show ?case by (simp only: ravel.simps) simp
qed

lemma read_delayed_blocks:
  assumes "read_delayed tiff S = Inr la"
  shows "\<exists>chunk dt. la_blocks la =
     map (\<lambda>(all_page_index, np_index).
            (np_index, \<lparr>d_scene = hd np_index,
                        d_page = all_page_index div (hd np_index + 1),
                        d_shape = chunk, d_dtype = dt\<rparr>))
         (enumerate 0 (ndindex (la_grid la)))"
  using assms
  by (auto simp: read_delayed_def ebind_def Let_def split: sum.splits if_splits prod.splits)

text \<open>
  Claim C7: in the lazy array that the assembly returns, the node at a position of the
  grid is bound to the scene given by the position's leading coordinate and to the
  page given by the position's rank in the row-major enumeration, divided by that
  coordinate plus one.
\<close>

theorem read_delayed_page_index:
  assumes "read_delayed tiff S = Inr la" and "(np_index, d) \<in> set (la_blocks la)"
  shows "d_scene d = hd np_index
       \<and> d_page d = ravel (la_grid la) np_index div (hd np_index + 1)"
proof -
  from read_delayed_blocks [OF assms(1)] obtain chunk dt where
    b: "la_blocks la =
     map (\<lambda>(all_page_index, np_index).
            (np_index, \<lparr>d_scene = hd np_index,
                        d_page = all_page_index div (hd np_index + 1),
                        d_shape = chunk, d_dtype = dt\<rparr>))
         (enumerate 0 (ndindex (la_grid la)))" by blast
  from assms(2) obtain k where k: "k < length (ndindex (la_grid la))"
    and e: "(np_index, d) = (ndindex (la_grid la) ! k,
        \<lparr>d_scene = hd (ndindex (la_grid la) ! k),
         d_page = k div (hd (ndindex (la_grid la) ! k) + 1),
         d_shape = chunk, d_dtype = dt\<rparr>)"
    unfolding b by (auto simp: in_set_conv_nth nth_enumerate_eq)
  from k have "ravel (la_grid la) (ndindex (la_grid la) ! k) = k"
    by (simp add: ravel_ndindex length_ndindex)
  with e show ?thesis by simp
qed


lemma div_3_2: "Suc (Suc (Suc 0)) div Suc (Suc 0) = Suc 0"
  by (simp add: numeral_2_eq_2 [symmetric] numeral_3_eq_3 [symmetric])

lemma upt_2: "[0..<2] = [0, Suc 0]"
  by (simp add: numeral_2_eq_2)

lemma upt_4: "[0..<4] = [0, Suc 0, 2, 3]"
  by (simp add: upt_rec)

lemma ex_plane_array: "a_shape (page_asarray ex_plane) = [100, 100]"
  by (simp add: ex_plane_def)

lemma ex_two_read_delayed: "read_delayed ex_two 0 = Inr ex_two_lazy"
  by (simp add: read_delayed_def ex_two_def scene_shape_is_consistent_def Let_def
      enumerate_eq_zip ex_two_lazy_def ex_node_def ex_plane_array ex_plane_dtype upt_2 upt_4
      div_3_2)

theorem read_delayed_page_index_witness:
  "read_delayed ex_two 0 = Inr ex_two_lazy
   \<and> ([1, 0, 0, 0], ex_node 1 1) \<in> set (la_blocks ex_two_lazy)
   \<and> d_scene (ex_node 1 1) = hd [1, 0, 0, 0]
   \<and> d_page (ex_node 1 1) = ravel (la_grid ex_two_lazy) [1, 0, 0, 0] div (hd [1, 0, 0, 0] + 1)"
proof -
  have m: "([1, 0, 0, 0], ex_node 1 1) \<in> set (la_blocks ex_two_lazy)"
    by (simp add: ex_two_lazy_def)
  from read_delayed_page_index [OF ex_two_read_delayed m] ex_two_read_delayed m
  show ?thesis by simp
qed

text \<open>The positions that carry a node are all the positions of the grid, in order.\<close>

lemma read_delayed_positions:
  assumes "read_delayed tiff S = Inr la"
  shows "map fst (la_blocks la) = ndindex (la_grid la)"
proof -
  from read_delayed_blocks [OF assms] obtain chunk dt where
    b: "la_blocks la =
     map (\<lambda>(all_page_index, np_index).
            (np_index, \<lparr>d_scene = hd np_index,
                        d_page = all_page_index div (hd np_index + 1),
                        d_shape = chunk, d_dtype = dt\<rparr>))
         (enumerate 0 (ndindex (la_grid la)))" by blast
  show ?thesis unfolding b
    by (rule nth_equalityI) (simp_all add: nth_enumerate_eq)
qed

subsection \<open>Lazy and immediate reading\<close>

lemma block_shape_111: "block_shape [Suc 0, Suc 0, Suc 0] [a, b] = [Suc 0, a, b]"
  by (simp add: block_shape_def)

text \<open>
  Claim C8: for a container of one scene of shape (100, 100) with one page that decodes
  to an array of shape (100, 100), hence of 10000 elements, the lazy read returns a
  lazy array of shape (100, 100), the scene axis being indexed away, and forcing it
  gives the array that the immediate read gives: the page's plane.
\<close>

theorem read_lazy_single_plane:
  assumes "tiff_series tiff = [s]" and "series_shape s = [100, 100]"
    and "series_pages s = [p]" and "a_shape (page_asarray p) = [100, 100]"
    and "length (a_data (page_asarray p)) = 10000"
  shows "\<exists>la. read_delayed tiff S = Inr la \<and> lazy_shape la = [100, 100]
            \<and> compute tiff la = read_immediate tiff S
            \<and> read_immediate tiff S = Inr (page_asarray p)"
proof -
  let ?la = "\<lparr>la_grid = [1, 1, 1],
              la_blocks = [([0, 0, 0], \<lparr>d_scene = 0, d_page = 0, d_shape = [100, 100],
                                        d_dtype = page_dtype p\<rparr>)],
              la_first = True\<rparr>"
  have c: "scene_shape_is_consistent tiff = Inr True"
    by (simp add: scene_shape_is_consistent_def assms(1))
  have rd: "read_delayed tiff S = Inr ?la"
    by (simp add: read_delayed_def c assms(1,2,3,4) Let_def enumerate_eq_zip)
  have ls: "lazy_shape ?la = [100, 100]"
    by (simp add: lazy_shape_def block_shape_111)
  have ri: "read_immediate tiff S = Inr (page_asarray p)"
    using assms(2,4)
    by (simp add: read_immediate_def c assms(1,3) tiff_asarray_def series_asarray_def)
  have im: "imread tiff 0 0 = Inr (page_asarray p)"
    by (simp add: imread_def assms(1,3))
  have co: "compute tiff ?la = Inr (page_asarray p)"
    using assms(4,5)
    by (simp add: compute_def im block_shape_111 index_first_def)
  from rd ls ri co show ?thesis by simp
qed


lemma ex_single_series:
  "tiff_series ex_single = [\<lparr>series_shape = [100, 100], pages_axes = ''YX'',
                       pages_shape = [100, 100], series_pages = [ex_plane]\<rparr>]"
  by (simp add: ex_single_def)

theorem read_lazy_single_plane_witness:
  "(\<exists>la. read_delayed ex_single 0 = Inr la \<and> lazy_shape la = [100, 100]
        \<and> compute ex_single la = read_immediate ex_single 0
        \<and> read_immediate ex_single 0 = Inr (page_asarray ex_plane))"
  by (rule read_lazy_single_plane [OF ex_single_series]) (simp_all add: ex_plane_def)

section \<open>Properties of the dimension labels\<close>

text \<open>
  Claim C3. A declared label string with exactly one unrecognised symbol is to be
  resolved to a string of the same length without duplicates. The resolver raises
  \<open>NameError\<close> on every call, here for the labels \<open>QCYX\<close>. Its loops, run with the
  declared labels and with the guess \<open>CZYX\<close> for a shape of four axes, would put \<open>C\<close>
  twice: a guessed label is checked against the labels before the position only.
\<close>

theorem guess_tiff_dims_unbound_names:
  "guess_tiff_dims ex_unknown 0 = Inl NameError
   \<and> best_guess_loop aics_dimensions ''CZYX'' ''QCYX'' [] = ''CCYX''"
  by (simp add: guess_tiff_dims_def aics_dimensions_def)

text \<open>The loops do keep the length.\<close>

lemma length_best_guess_loop:
  "length (best_guess_loop D guess single_scene_dims best_guess) =
   length best_guess + length single_scene_dims"
  by (induction D guess single_scene_dims best_guess rule: best_guess_loop.induct)
     (auto split: option.splits)

text \<open>
  Claim C6. For a container of several scenes of one shape, the resolved labels are to
  be the scene label followed by the labels of one scene, and the resolved shape the
  number of scenes followed by the shape of one scene. For three scenes of shape
  (5, 100, 100) with the labels \<open>IYX\<close>, of which \<open>I\<close> is not recognised, nothing is
  resolved: the call of the resolver in line 238 raises \<open>NameError\<close>.
\<close>

theorem get_tiff_properties_unrecognised:
  "get_tiff_properties aics_dimensions (ex_three ''IYX'') 0 = Inl NameError"
  by (simp add: get_tiff_properties_def aics_dimensions_def ex_three_def ex_scene_def
      guess_tiff_dims_def py_index_def)

text \<open>
  With recognised labels the properties are as the claim says, and the container of
  its example resolves to \<open>SZYX\<close> and (3, 5, 100, 100).
\<close>

lemma get_tiff_properties_example:
  "get_tiff_properties aics_dimensions (ex_three ''ZYX'') 0 =
     Inr \<lparr>dims = ''SZYX'', shape = [3, 5, 100, 100], dtype = ''uint16''\<rparr>"
  by (simp add: get_tiff_properties_def aics_dimensions_def ex_three_def ex_scene_def
      scene_shape_is_consistent_def py_index_def ex_plane_dtype)

lemma get_tiff_properties_trusted:
  assumes "py_index (tiff_series tiff) S = Inr scene" "tiff_pages tiff = page0 # ps"
    and "set (pages_axes scene) \<subseteq> set (DefaultOrder D)"
  shows "get_tiff_properties D tiff S =
     Inr (if length (tiff_series tiff) > 1 \<and>
             same_shape_loop (series_shape (hd (tiff_series tiff))) (tiff_series tiff)
          then \<lparr>dims = Scene D @ pages_axes scene,
                shape = length (tiff_series tiff) # pages_shape scene,
                dtype = page_dtype page0\<rparr>
          else \<lparr>dims = pages_axes scene, shape = pages_shape scene,
                dtype = page_dtype page0\<rparr>)"
proof -
  from assms(3) have all: "list_all (\<lambda>d. d \<in> set (DefaultOrder D)) (pages_axes scene)"
    by (auto simp: list_all_iff)
  show ?thesis
  proof (cases "tiff_series tiff")
    case Nil
    with assms(1) show ?thesis by simp
  next
    case (Cons s0 ss)
    then show ?thesis using assms(1,2) all
      by (simp add: get_tiff_properties_def scene_shape_is_consistent_def)
  qed
qed

section \<open>Properties of the cache\<close>









text \<open>
  When the introspection raises, nothing is cached: every call raises and every call
  introspects again.
\<close>

lemma failed_introspection_is_repeated:
  assumes "get_tiff_properties D tiff S = Inl e"
  shows "fst (call_getters D gs (new_TiffReader tiff S)) = map (\<lambda>g. Inl e) gs
       \<and> introspections (snd (call_getters D gs (new_TiffReader tiff S))) = length gs"
proof -
  have step: "call_getter D g r = (Inl e, r\<lparr>introspections := introspections r + 1\<rparr>)"
    if "r_file r = tiff" "specific_s_index r = S" "cached_dims r = None"
      "cached_shape r = None" "cached_dtype r = None" for g and r :: "'a TiffReader"
    using that assms
    by (cases g)
       (simp_all add: reader_dims_def reader_shape_def reader_dtype_def load_properties_def)
  have "call_getters D gs r =
      (map (\<lambda>g. Inl e) gs, r\<lparr>introspections := introspections r + length gs\<rparr>)"
    if "r_file r = tiff" "specific_s_index r = S" "cached_dims r = None"
      "cached_shape r = None" "cached_dtype r = None" for r :: "'a TiffReader"
    using that
  proof (induction gs arbitrary: r)
    case Nil
    then show ?case by simp
  next
    case (Cons g gs)
    have "call_getters D gs (r\<lparr>introspections := introspections r + 1\<rparr>) =
      (map (\<lambda>g. Inl e) gs,
       r\<lparr>introspections := introspections r + 1\<rparr>
        \<lparr>introspections := introspections (r\<lparr>introspections := introspections r + 1\<rparr>)
           + length gs\<rparr>)"
      by (rule Cons.IH) (simp_all add: Cons.prems)
    then show ?case by (simp add: step [OF Cons.prems])
  qed
  from this [of "new_TiffReader tiff S"] show ?thesis by (simp add: new_TiffReader_def)
qed

end
